theory Spec2Isabelle
  imports Main "HOL-Library.Finite_Map" "HOL-Library.Char_ord" "HOL-Library.List_Lexorder"
begin

section \<open>Python built-ins used by the handlers\<close>

text \<open>
  Text is a \<open>string\<close>: the UTF-8 bytes of the Python \<open>str\<close>. A character below 128 is
  one byte; any other character is a sequence of two to four bytes, none of them below
  128.

  \<open>whitespace\<close> lists the encodings of the characters for which \<open>str.isspace\<close> holds:
  the ten below 128 (tab, line feed, vertical tab, form feed, carriage return, the four
  separators 0x1C to 0x1F, space) and the nineteen above (U+0085, U+00A0, U+1680,
  U+2000 to U+200A, U+2028, U+2029, U+202F, U+205F, U+3000).
\<close>

definition ascii_whitespace :: "string list" where
  "ascii_whitespace =
     map (\<lambda>c. [c]) [CHR 0x09, CHR 0x0A, CHR 0x0B, CHR 0x0C, CHR 0x0D,
                   CHR 0x1C, CHR 0x1D, CHR 0x1E, CHR 0x1F, CHR 0x20]"

definition wide_whitespace :: "string list" where
  "wide_whitespace =
     [[CHR 0xC2, CHR 0x85],
      [CHR 0xC2, CHR 0xA0],
      [CHR 0xE1, CHR 0x9A, CHR 0x80],
      [CHR 0xE2, CHR 0x80, CHR 0x80],
      [CHR 0xE2, CHR 0x80, CHR 0x81],
      [CHR 0xE2, CHR 0x80, CHR 0x82],
      [CHR 0xE2, CHR 0x80, CHR 0x83],
      [CHR 0xE2, CHR 0x80, CHR 0x84],
      [CHR 0xE2, CHR 0x80, CHR 0x85],
      [CHR 0xE2, CHR 0x80, CHR 0x86],
      [CHR 0xE2, CHR 0x80, CHR 0x87],
      [CHR 0xE2, CHR 0x80, CHR 0x88],
      [CHR 0xE2, CHR 0x80, CHR 0x89],
      [CHR 0xE2, CHR 0x80, CHR 0x8A],
      [CHR 0xE2, CHR 0x80, CHR 0xA8],
      [CHR 0xE2, CHR 0x80, CHR 0xA9],
      [CHR 0xE2, CHR 0x80, CHR 0xAF],
      [CHR 0xE2, CHR 0x81, CHR 0x9F],
      [CHR 0xE3, CHR 0x80, CHR 0x80]]"

definition whitespace :: "string list" where
  "whitespace = ascii_whitespace @ wide_whitespace"

text \<open>Removes from the front of a text every leading occurrence of one of the given words.\<close>

function drop_leading :: "string list \<Rightarrow> string \<Rightarrow> string" where
  "drop_leading ws s =
     (case find (\<lambda>w. w \<noteq> [] \<and> take (length w) s = w) ws of
        None \<Rightarrow> s
      | Some w \<Rightarrow> drop_leading ws (drop (length w) s))"
  by pat_completeness auto
termination
proof (relation "measure (\<lambda>(ws, s). length s)")
  show "wf (measure (\<lambda>(ws, s). length s))" by simp
next
  fix ws :: "string list" and s w :: string
  assume "find (\<lambda>w. w \<noteq> [] \<and> take (length w) s = w) ws = Some w"
  then have "w \<noteq> []" "take (length w) s = w" by (auto simp: find_Some_iff)
  then have "s \<noteq> []" "0 < length w" by auto
  then show "((ws, drop (length w) s), (ws, s)) \<in> measure (\<lambda>(ws, s). length s)" by simp
qed

declare drop_leading.simps [simp del]

text \<open>\<open>str.strip()\<close> without arguments: drops whitespace characters at both ends.\<close>

definition strip :: "string \<Rightarrow> string" where
  "strip s = rev (drop_leading (map rev whitespace) (rev (drop_leading whitespace s)))"

text \<open>\<open>str(n)\<close> for a non-negative integer: its decimal digits.\<close>

fun py_str :: "nat \<Rightarrow> string" where
  "py_str n =
     (if n < 10 then [''0123456789'' ! n]
      else py_str (n div 10) @ [''0123456789'' ! (n mod 10)])"

declare py_str.simps [simp del]

text \<open>
  \<open>s.rsplit(sep, 1)\<close> for a one-character separator: the text before the last
  separator and the text after it, or the string alone when it has no separator.
\<close>

definition rsplit1 :: "char \<Rightarrow> string \<Rightarrow> string list" where
  "rsplit1 sep s =
     (if sep \<in> set s
      then [rev (tl (dropWhile (\<lambda>c. c \<noteq> sep) (rev s))), rev (takeWhile (\<lambda>c. c \<noteq> sep) (rev s))]
      else [s])"

section \<open>Library functions taken as parameters, and the instances the examples run\<close>

text \<open>
  Two functions the upload handler calls are not code of this repository and depend on
  tables and settings outside it: \<open>int\<close> of the Python interpreter (Unicode digits, the
  configurable limit on the number of digits) and \<open>secure_filename\<close> of the werkzeug
  library (Unicode normalisation). The handlers take both from the platform record
  below, and every general statement holds for any such pair. The two definitions of
  this section are the instances the concrete examples run; they follow the originals
  on text whose characters are all below 128.

  \<open>py_int\<close>: whitespace around the literal (for \<open>int\<close> the characters 0x1C to 0x1F do
  not count as whitespace), one optional sign, decimal digits in which single
  underscores may stand between two digits, at most 4300 digits. Anything else raises
  ValueError, which is \<open>None\<close> here.
\<close>

definition isdigit :: "char \<Rightarrow> bool" where
  "isdigit c = (c \<in> set ''0123456789'')"

definition digit_val :: "char \<Rightarrow> nat" where
  "digit_val c = of_char c - 48"

fun int_digits :: "string \<Rightarrow> nat \<Rightarrow> nat option" where
  "int_digits [] acc = Some acc"
| "int_digits (c # cs) acc =
     (if isdigit c then int_digits cs (10 * acc + digit_val c)
      else if c = CHR ''_'' then
        (case cs of
           [] \<Rightarrow> None
         | d # _ \<Rightarrow> if isdigit d then int_digits cs acc else None)
      else None)"

definition int_body :: "string \<Rightarrow> nat option" where
  "int_body s =
     (case s of
        [] \<Rightarrow> None
      | c # _ \<Rightarrow>
          if isdigit c \<and> length (filter isdigit s) \<le> 4300 then int_digits s 0 else None)"

definition int_whitespace :: "string list" where
  "int_whitespace =
     map (\<lambda>c. [c]) [CHR 0x09, CHR 0x0A, CHR 0x0B, CHR 0x0C, CHR 0x0D, CHR 0x20]
     @ wide_whitespace"

definition py_int :: "string \<Rightarrow> int option" where
  "py_int s =
     (case rev (drop_leading (map rev int_whitespace) (rev (drop_leading int_whitespace s))) of
        [] \<Rightarrow> None
      | c # cs \<Rightarrow>
          if c = CHR ''-'' then map_option (\<lambda>n. - int n) (int_body cs)
          else if c = CHR ''+'' then map_option int (int_body cs)
          else map_option int (int_body (c # cs)))"

text \<open>
  \<open>secure_filename\<close>, on a POSIX system: path separators become spaces, whitespace runs
  become one underscore, characters outside \<open>A-Za-z0-9_.-\<close> are removed, dots and
  underscores are stripped from both ends.
\<close>

definition isspace :: "char \<Rightarrow> bool" where
  "isspace c = ([c] \<in> set ascii_whitespace)"

fun split_ws :: "string \<Rightarrow> string \<Rightarrow> string list" where
  "split_ws [] cur = (if cur = [] then [] else [rev cur])"
| "split_ws (c # cs) cur =
     (if isspace c then (if cur = [] then split_ws cs [] else rev cur # split_ws cs [])
      else split_ws cs (c # cur))"

fun join :: "string \<Rightarrow> string list \<Rightarrow> string" where
  "join sep [] = []"
| "join sep [w] = w"
| "join sep (w # ws) = w @ sep @ join sep ws"

definition filename_safe_char :: "char \<Rightarrow> bool" where
  "filename_safe_char c =
     (c \<in> set ''ABCDEFGHIJKLMNOPQRSTUVWXYZabcdefghijklmnopqrstuvwxyz0123456789_.-'')"

definition strip_chars :: "string \<Rightarrow> string \<Rightarrow> string" where
  "strip_chars cs s = rev (dropWhile (\<lambda>c. c \<in> set cs) (rev (dropWhile (\<lambda>c. c \<in> set cs) s)))"

definition secure_filename :: "string \<Rightarrow> string" where
  "secure_filename fname =
     strip_chars ''._''
       (filter filename_safe_char
          (join ''_'' (split_ws (map (\<lambda>c. if c = CHR ''/'' then CHR '' '' else c) fname) [])))"

section \<open>Data model (models.py)\<close>

record category =
  cat_id :: int
  cat_name :: string

record video_content =
  vid_id :: int
  title :: string
  video_filename :: string
  analysis :: "string option"
  category_id :: int

text \<open>
  An uploaded file as the handler sees it (werkzeug's FileStorage): the client's file
  name and the bytes. Its truth value is that of its file name, so a part sent with an
  empty file name counts as no file.
\<close>

record file_storage =
  filename :: string
  payload :: string

type_synonym form = "string \<rightharpoonup> string"
type_synonym file_fields = "string \<rightharpoonup> file_storage"
type_synonym upload_folder = "(string, string) fmap"

text \<open>
  The state of the server as one client sees it: the two tables in insertion order, the
  upload folder as a finite map from file names to contents, and the client's session.
\<close>

record app_state =
  categories :: "category list"
  videos :: "video_content list"
  uploads :: upload_folder
  session :: "string \<rightharpoonup> bool"

text \<open>
  What the server runs on: the two library functions of the section above, the process
  environment, the longest file name (in bytes) the file system of the upload folder
  takes (255 on the usual Linux file systems), and whether the file system takes the
  write of given bytes under a given name into a given folder (room, permissions).
\<close>

record platform =
  secure_filename_of :: "string \<Rightarrow> string"
  int_of :: "string \<Rightarrow> int option"
  environ :: "string \<rightharpoonup> string"
  name_max :: nat
  write_ok :: "upload_folder \<Rightarrow> string \<Rightarrow> string \<Rightarrow> bool"

text \<open>
  Exceptions no handler catches. Raised inside a request, the framework answers with
  status 500 and nothing of the request is stored.
\<close>

datatype error = OverflowError | OSError | AttributeError | RuntimeError

datatype endpoint = Admin_login | Admin_index | Mini_app | Uploaded_file string

datatype url = Url_for endpoint bool

record video_details =
  vd_id :: int
  vd_title :: string
  vd_video_url :: url
  vd_analysis :: string

datatype response =
    Redirect endpoint
  | Render_login "string option"
  | Render_admin "category list" "video_content list"
  | Render_mini_app
  | Json_categories "(int \<times> string) list"
  | Json_videos "(int \<times> string) list"
  | Json_video video_details
  | Send_file string
  | Not_found
  | Payload_too_large
  | Server_error error

section \<open>Storage layer\<close>

text \<open>
  Both tables have an integer primary key that the database assigns: SQLite gives a new
  row the largest key in the table plus one, and 1 in an empty table. The keys a table
  holds are signed 64-bit integers; the limit is never reached by counting rows, and
  the model lets the keys grow.
\<close>

fun next_id :: "int list \<Rightarrow> int" where
  "next_id [] = 1"
| "next_id (x # xs) = fold max xs x + 1"

text \<open>\<open>Category.query.filter_by(name=name).first()\<close>\<close>

definition category_by_name :: "category list \<Rightarrow> string \<Rightarrow> category option" where
  "category_by_name cs name = find (\<lambda>c. cat_name c = name) cs"

text \<open>
  \<open>Category.query.get(id)\<close> and \<open>VideoContent.query.get(id)\<close>. The id asked for comes
  from the URL or the form and is any Python integer; one outside the signed 64-bit
  range cannot be bound to the query, and the lookup raises OverflowError. The keys a
  table holds are inside the range, so this is the case only where no row has the id.
\<close>

definition sqlite_int :: "int \<Rightarrow> bool" where
  "sqlite_int i = (- 9223372036854775808 \<le> i \<and> i \<le> 9223372036854775807)"

definition category_get :: "category list \<Rightarrow> int \<Rightarrow> error + category option" where
  "category_get cs i =
     (case find (\<lambda>c. cat_id c = i) cs of
        Some c \<Rightarrow> Inr (Some c)
      | None \<Rightarrow> if sqlite_int i then Inr None else Inl OverflowError)"

definition video_get :: "video_content list \<Rightarrow> int \<Rightarrow> error + video_content option" where
  "video_get vs i =
     (case find (\<lambda>v. vid_id v = i) vs of
        Some v \<Rightarrow> Inr (Some v)
      | None \<Rightarrow> if sqlite_int i then Inr None else Inl OverflowError)"

text \<open>\<open>db.session.add(...)\<close> followed by \<open>db.session.commit()\<close>\<close>

definition add_category :: "string \<Rightarrow> app_state \<Rightarrow> app_state" where
  "add_category name s =
     s\<lparr>categories := categories s @ [\<lparr>cat_id = next_id (map cat_id (categories s)), cat_name = name\<rparr>]\<rparr>"

definition add_video :: "string \<Rightarrow> string \<Rightarrow> string \<Rightarrow> category \<Rightarrow> app_state \<Rightarrow> app_state" where
  "add_video ttl fname an c s =
     s\<lparr>videos := videos s @
          [\<lparr>vid_id = next_id (map vid_id (videos s)), title = ttl, video_filename = fname,
            analysis = Some an, category_id = cat_id c\<rparr>]\<rparr>"

section \<open>File store\<close>

text \<open>
  \<open>(Path(UPLOAD_FOLDER) / name).exists()\<close>, with \<open>nm\<close> the longest name the file system
  takes: for a longer name the test raises OSError (file name too long). Joining the
  folder with the empty name gives the folder itself, which \<open>ensure_upload_folder\<close> has
  created before the first request; any other name exists when a file of that name is
  stored.
\<close>

definition path_exists :: "nat \<Rightarrow> upload_folder \<Rightarrow> string \<Rightarrow> error + bool" where
  "path_exists nm fs name =
     (if nm < length name then Inl OSError else Inr (name = [] \<or> name |\<in>| fmdom fs))"

text \<open>
  \<open>file.save(save_path)\<close>: when the file system takes the write the folder holds the
  bytes under the name; otherwise the call raises OSError and the folder is taken to
  be as it was.
\<close>

definition file_save :: "platform \<Rightarrow> file_storage \<Rightarrow> string \<Rightarrow> app_state \<Rightarrow> error + app_state" where
  "file_save pf f name s =
     (if write_ok pf (uploads s) name (payload f)
      then Inr (s\<lparr>uploads := fmupd name (payload f) (uploads s)\<rparr>)
      else Inl OSError)"

text \<open>The name tried at one round of the collision loop (app.py, lines 176 to 178).\<close>

definition renamed :: "string list \<Rightarrow> nat \<Rightarrow> string" where
  "renamed original_name counter =
     (let name_part = original_name ! 0;
          ext = (if length original_name > 1 then original_name ! 1 else [])
      in if ext \<noteq> [] then name_part @ ''_'' @ py_str counter @ ''.'' @ ext
         else name_part @ ''_'' @ py_str counter)"

subsection \<open>The collision loop terminates\<close>

text \<open>
  Decimal numerals are injective, so the names the loop tries are pairwise distinct; a
  folder holds finitely many files, so the loop reaches a free name unless a test
  raises first.
\<close>

lemma py_str_nonempty: "py_str n \<noteq> []"
  by (subst py_str.simps) simp

lemma digit_char_inj:
  assumes "a < 10" "b < 10" "''0123456789'' ! a = ''0123456789'' ! b"
  shows "a = b"
proof -
  have "distinct ''0123456789''" by simp
  moreover have "a < length ''0123456789''" "b < length ''0123456789''" using assms by simp_all
  ultimately show ?thesis using assms(3) by (simp only: nth_eq_iff_index_eq)
qed

lemma py_str_length_ge2: "10 \<le> n \<Longrightarrow> 2 \<le> length (py_str n)"
proof -
  assume "10 \<le> n"
  then have "py_str n = py_str (n div 10) @ [''0123456789'' ! (n mod 10)]"
    by (subst py_str.simps) simp
  moreover have "1 \<le> length (py_str (n div 10))"
    using py_str_nonempty [of "n div 10"] by (cases "py_str (n div 10)") simp_all
  ultimately show ?thesis by simp
qed

lemma py_str_inj: "py_str m = py_str n \<Longrightarrow> m = n"
proof (induction m arbitrary: n rule: py_str.induct)
  case (1 m)
  show ?case
  proof (cases "m < 10")
    case True
    then have m: "py_str m = [''0123456789'' ! m]" by (subst py_str.simps) simp
    show ?thesis
    proof (cases "n < 10")
      case True
      then have "py_str n = [''0123456789'' ! n]" by (subst py_str.simps) simp
      with m "1.prems" have "''0123456789'' ! m = ''0123456789'' ! n" by simp
      with \<open>m < 10\<close> True show ?thesis by (rule digit_char_inj)
    next
      case False
      then have "2 \<le> length (py_str n)" by (simp add: py_str_length_ge2)
      with m "1.prems" show ?thesis by simp
    qed
  next
    case False
    then have m: "py_str m = py_str (m div 10) @ [''0123456789'' ! (m mod 10)]"
      by (subst py_str.simps) simp
    show ?thesis
    proof (cases "n < 10")
      case True
      then have "py_str n = [''0123456789'' ! n]" by (subst py_str.simps) simp
      moreover have "2 \<le> length (py_str m)" using False by (simp add: py_str_length_ge2)
      ultimately show ?thesis using "1.prems" by simp
    next
      case nf: False
      then have n: "py_str n = py_str (n div 10) @ [''0123456789'' ! (n mod 10)]"
        by (subst py_str.simps) simp
      from m n "1.prems" have a: "py_str (m div 10) = py_str (n div 10)"
        and b: "''0123456789'' ! (m mod 10) = ''0123456789'' ! (n mod 10)" by simp_all
      from "1.IH" [OF False a] have "m div 10 = n div 10" .
      moreover have "m mod 10 = n mod 10"
        by (rule digit_char_inj [OF _ _ b]) simp_all
      ultimately show ?thesis by (metis div_mult_mod_eq)
    qed
  qed
qed

lemma renamed_inj: "renamed on j = renamed on k \<Longrightarrow> j = k"
  by (auto simp: renamed_def Let_def py_str_inj split: if_splits)

lemma renamed_nonempty: "renamed on k \<noteq> []"
  by (simp add: renamed_def Let_def)

lemma finite_renamed_in: "finite {j. renamed on j |\<in>| fmdom fs}"
proof -
  have "finite (renamed on -` fset (fmdom fs))"
    by (rule finite_vimageI) (auto intro: injI renamed_inj)
  then show ?thesis by (simp add: vimage_def)
qed

text \<open>
  Lines 175 to 180 of app.py: while the name exists, take the next candidate; a test
  that raises ends the loop with the exception.
\<close>

function resolve_loop ::
  "nat \<Rightarrow> upload_folder \<Rightarrow> string list \<Rightarrow> string \<Rightarrow> nat \<Rightarrow> error + string" where
  "resolve_loop nm fs original_name fname counter =
     (case path_exists nm fs fname of
        Inl e \<Rightarrow> Inl e
      | Inr found \<Rightarrow>
          if found
          then resolve_loop nm fs original_name (renamed original_name counter) (counter + 1)
          else Inr fname)"
  by pat_completeness auto
termination
proof (relation "measure (\<lambda>(nm, fs, on, fname, counter).
          card {j. counter \<le> j \<and> renamed on j |\<in>| fmdom fs}
          + (if fname = [] \<or> fname |\<in>| fmdom fs then 1 else 0))")
  show "wf (measure (\<lambda>(nm, fs, on, fname, counter).
          card {j. counter \<le> j \<and> renamed on j |\<in>| fmdom fs}
          + (if fname = [] \<or> fname |\<in>| fmdom fs then 1 else 0)))"
    by simp
next
  fix nm :: nat and fs :: upload_folder and original_name :: "string list"
    and fname :: string and counter :: nat and found :: bool
  assume "path_exists nm fs fname = Inr found" and found
  then have ex: "fname = [] \<or> fname |\<in>| fmdom fs"
    by (auto simp: path_exists_def split: if_splits)
  let ?A = "{j. counter \<le> j \<and> renamed original_name j |\<in>| fmdom fs}"
  let ?B = "{j. counter + 1 \<le> j \<and> renamed original_name j |\<in>| fmdom fs}"
  let ?next = "renamed original_name counter"
  have finA: "finite ?A"
    using finite_renamed_in [of original_name fs] by (rule rev_finite_subset) auto
  have le: "card ?B + (if ?next = [] \<or> ?next |\<in>| fmdom fs then 1 else 0) \<le> card ?A"
  proof (cases "?next |\<in>| fmdom fs")
    case True
    then have "?A = insert counter ?B" by (auto simp: le_Suc_eq)
    moreover have "counter \<notin> ?B" by simp
    moreover have "finite ?B" using finA by (rule rev_finite_subset) auto
    ultimately show ?thesis using True by simp
  next
    case False
    have "card ?B \<le> card ?A" by (rule card_mono [OF finA]) auto
    with False show ?thesis by (simp add: renamed_nonempty)
  qed
  with ex show "((nm, fs, original_name, ?next, counter + 1),
         (nm, fs, original_name, fname, counter)) \<in> measure (\<lambda>(nm, fs, on, fname, counter).
          card {j. counter \<le> j \<and> renamed on j |\<in>| fmdom fs}
          + (if fname = [] \<or> fname |\<in>| fmdom fs then 1 else 0))"
    by simp
qed

declare resolve_loop.simps [simp del]

section \<open>The web application (app.py)\<close>

subsection \<open>Admin panel\<close>

text \<open>
  \<open>app.config['MAX_CONTENT_LENGTH']\<close>. A handler that reads \<open>request.form\<close> or
  \<open>request.files\<close> of a request whose content length is larger gets the exception
  RequestEntityTooLarge at that point, which the framework answers with status 413.
\<close>

definition MAX_CONTENT_LENGTH :: nat where
  "MAX_CONTENT_LENGTH = 1024 * 1024 * 500"

text \<open>\<open>d.get(key, default)\<close> on the form and on the process environment.\<close>

definition get_default :: "(string \<rightharpoonup> string) \<Rightarrow> string \<Rightarrow> string \<Rightarrow> string" where
  "get_default d key dflt = (case d key of None \<Rightarrow> dflt | Some v \<Rightarrow> v)"

definition check_auth :: "(string \<rightharpoonup> string) \<Rightarrow> string \<Rightarrow> string \<Rightarrow> bool" where
  "check_auth env username password =
     (username = get_default env ''ADMIN_USERNAME'' ''admin''
      \<and> password = get_default env ''ADMIN_PASSWORD'' ''admin'')"

text \<open>
  The decorator: \<open>session.get('logged_in')\<close> is falsy when the key is absent or holds
  False; then the wrapped handler is not run.
\<close>

definition logged_in :: "app_state \<Rightarrow> bool" where
  "logged_in s = (session s ''logged_in'' = Some True)"

definition login_required ::
  "(app_state \<Rightarrow> response \<times> app_state) \<Rightarrow> app_state \<Rightarrow> response \<times> app_state" where
  "login_required func s = (if \<not> logged_in s then (Redirect Admin_login, s) else func s)"

text \<open>The message of a failed login, as UTF-8 bytes.\<close>

definition login_error :: string where
  "login_error = [
      CHR 0xD0, CHR 0x9D, CHR 0xD0, CHR 0xB5, CHR 0xD0, CHR 0xB2, CHR 0xD0, CHR 0xB5,
      CHR 0xD1, CHR 0x80, CHR 0xD0, CHR 0xBD, CHR 0xD1, CHR 0x8B, CHR 0xD0, CHR 0xB9,
      CHR 0x20, CHR 0xD0, CHR 0xBB, CHR 0xD0, CHR 0xBE, CHR 0xD0, CHR 0xB3, CHR 0xD0,
      CHR 0xB8, CHR 0xD0, CHR 0xBD, CHR 0x20, CHR 0xD0, CHR 0xB8, CHR 0xD0, CHR 0xBB,
      CHR 0xD0, CHR 0xB8, CHR 0x20, CHR 0xD0, CHR 0xBF, CHR 0xD0, CHR 0xB0, CHR 0xD1,
      CHR 0x80, CHR 0xD0, CHR 0xBE, CHR 0xD0, CHR 0xBB, CHR 0xD1, CHR 0x8C]"

datatype http_method = GET | POST

definition admin_login ::
  "platform \<Rightarrow> http_method \<Rightarrow> nat \<Rightarrow> form \<Rightarrow> app_state \<Rightarrow> response \<times> app_state" where
  "admin_login pf method content_length form s =
     (if method = POST then
        (if MAX_CONTENT_LENGTH < content_length then (Payload_too_large, s)
         else
           (let username = get_default form ''username'' [];
                password = get_default form ''password'' []
            in if check_auth (environ pf) username password
               then (Redirect Admin_index, s\<lparr>session := (session s)(''logged_in'' \<mapsto> True)\<rparr>)
               else (Render_login (Some login_error), s)))
      else (Render_login None, s))"

definition admin_logout :: "app_state \<Rightarrow> response \<times> app_state" where
  "admin_logout s = (Redirect Admin_login, s\<lparr>session := (session s)(''logged_in'' := None)\<rparr>)"

definition admin_index :: "app_state \<Rightarrow> response \<times> app_state" where
  "admin_index =
     login_required
       (\<lambda>s. (Render_admin (sort_key cat_name (categories s)) (rev (sort_key vid_id (videos s))), s))"

definition admin_add_category_view :: "nat \<Rightarrow> form \<Rightarrow> app_state \<Rightarrow> response \<times> app_state" where
  "admin_add_category_view content_length form s =
     (if MAX_CONTENT_LENGTH < content_length then (Payload_too_large, s)
      else
        (let name = strip (get_default form ''name'' [])
         in if name = [] then (Redirect Admin_index, s)
            else if category_by_name (categories s) name = None
            then (Redirect Admin_index, add_category name s)
            else (Redirect Admin_index, s)))"

definition admin_add_category :: "nat \<Rightarrow> form \<Rightarrow> app_state \<Rightarrow> response \<times> app_state" where
  "admin_add_category content_length form =
     login_required (admin_add_category_view content_length form)"

text \<open>
  Lines 170 to 180 of app.py: from the sanitised name, the loop from counter 1 over the
  two parts of the sanitised name.
\<close>

definition resolve_filename :: "nat \<Rightarrow> upload_folder \<Rightarrow> string \<Rightarrow> error + string" where
  "resolve_filename nm fs sanitized =
     resolve_loop nm fs (rsplit1 CHR ''.'' sanitized) sanitized 1"

definition admin_add_video_view ::
  "platform \<Rightarrow> nat \<Rightarrow> form \<Rightarrow> file_fields \<Rightarrow> app_state \<Rightarrow> response \<times> app_state" where
  "admin_add_video_view pf content_length form file_fields s =
     (if MAX_CONTENT_LENGTH < content_length then (Payload_too_large, s)
      else
        (let ttl = strip (get_default form ''title'' []);
             an = strip (get_default form ''analysis'' [])
         in case (file_fields ''video_file'', form ''category_id'') of
              (Some file, Some cid) \<Rightarrow>
                if ttl = [] \<or> filename file = [] \<or> cid = [] then (Redirect Admin_index, s)
                else (case int_of pf cid of
                        None \<Rightarrow> (Redirect Admin_index, s)
                      | Some category_id_int \<Rightarrow>
                          (case category_get (categories s) category_id_int of
                             Inl e \<Rightarrow> (Server_error e, s)
                           | Inr None \<Rightarrow> (Redirect Admin_index, s)
                           | Inr (Some c) \<Rightarrow>
                               (case resolve_filename (name_max pf) (uploads s)
                                       (secure_filename_of pf (filename file)) of
                                  Inl e \<Rightarrow> (Server_error e, s)
                                | Inr fname \<Rightarrow>
                                    (case file_save pf file fname s of
                                       Inl e \<Rightarrow> (Server_error e, s)
                                     | Inr saved \<Rightarrow>
                                         (Redirect Admin_index,
                                          add_video ttl fname an c saved)))))
            | _ \<Rightarrow> (Redirect Admin_index, s)))"

definition admin_add_video ::
  "platform \<Rightarrow> nat \<Rightarrow> form \<Rightarrow> file_fields \<Rightarrow> app_state \<Rightarrow> response \<times> app_state" where
  "admin_add_video pf content_length form file_fields =
     login_required (admin_add_video_view pf content_length form file_fields)"

definition uploaded_file :: "string \<Rightarrow> app_state \<Rightarrow> response \<times> app_state" where
  "uploaded_file name s =
     (case fmlookup (uploads s) name of None \<Rightarrow> (Not_found, s) | Some bytes \<Rightarrow> (Send_file bytes, s))"

subsection \<open>JSON API\<close>

definition api_categories :: "app_state \<Rightarrow> response \<times> app_state" where
  "api_categories s =
     (Json_categories (map (\<lambda>c. (cat_id c, cat_name c)) (sort_key cat_name (categories s))), s)"

definition api_videos_by_category :: "int \<Rightarrow> app_state \<Rightarrow> response \<times> app_state" where
  "api_videos_by_category cid s =
     (case category_get (categories s) cid of
        Inl e \<Rightarrow> (Server_error e, s)
      | Inr None \<Rightarrow> (Not_found, s)
      | Inr (Some c) \<Rightarrow>
          (Json_videos
             (map (\<lambda>v. (vid_id v, title v))
                (rev (sort_key vid_id (filter (\<lambda>v. category_id v = cat_id c) (videos s))))), s))"

text \<open>\<open>video.analysis or ''\<close>\<close>

definition or_empty :: "string option \<Rightarrow> string" where
  "or_empty a = (case a of None \<Rightarrow> [] | Some t \<Rightarrow> if t = [] then [] else t)"

definition api_video_details :: "int \<Rightarrow> app_state \<Rightarrow> response \<times> app_state" where
  "api_video_details video_id s =
     (case video_get (videos s) video_id of
        Inl e \<Rightarrow> (Server_error e, s)
      | Inr None \<Rightarrow> (Not_found, s)
      | Inr (Some v) \<Rightarrow>
          (Json_video
             \<lparr>vd_id = vid_id v, vd_title = title v,
              vd_video_url = Url_for (Uploaded_file (video_filename v)) True,
              vd_analysis = or_empty (analysis v)\<rparr>, s))"

subsection \<open>Mini application and routing\<close>

definition mini_app :: "app_state \<Rightarrow> response \<times> app_state" where
  "mini_app s = (Render_mini_app, s)"

definition index :: "app_state \<Rightarrow> response \<times> app_state" where
  "index s = (Redirect Mini_app, s)"

text \<open>A request that carries a form also carries its content length.\<close>

datatype request =
    Req_admin_login http_method nat form
  | Req_admin_logout
  | Req_admin_index
  | Req_admin_add_category nat form
  | Req_admin_add_video nat form file_fields
  | Req_uploaded_file string
  | Req_api_categories
  | Req_api_videos_by_category int
  | Req_api_video_details int
  | Req_mini_app
  | Req_index

text \<open>One request against the server on the platform \<open>pf\<close>.\<close>

fun handle :: "platform \<Rightarrow> request \<Rightarrow> app_state \<Rightarrow> response \<times> app_state" where
  "handle pf (Req_admin_login m len form) s = admin_login pf m len form s"
| "handle pf Req_admin_logout s = admin_logout s"
| "handle pf Req_admin_index s = admin_index s"
| "handle pf (Req_admin_add_category len form) s = admin_add_category len form s"
| "handle pf (Req_admin_add_video len form ff) s = admin_add_video pf len form ff s"
| "handle pf (Req_uploaded_file name) s = uploaded_file name s"
| "handle pf Req_api_categories s = api_categories s"
| "handle pf (Req_api_videos_by_category cid) s = api_videos_by_category cid s"
| "handle pf (Req_api_video_details vid) s = api_video_details vid s"
| "handle pf Req_mini_app s = mini_app s"
| "handle pf Req_index s = index s"

fun run :: "platform \<Rightarrow> request list \<Rightarrow> app_state \<Rightarrow> app_state" where
  "run pf [] s = s"
| "run pf (r # rs) s = run pf rs (snd (handle pf r s))"

text \<open>The server at its first request: empty tables, an empty folder, a fresh session.\<close>

definition initial :: app_state where
  "initial = \<lparr>categories = [], videos = [], uploads = fmempty, session = Map.empty\<rparr>"

inductive reachable :: "platform \<Rightarrow> app_state \<Rightarrow> bool" for pf :: platform where
  reachable_initial: "reachable pf initial"
| reachable_step: "reachable pf s \<Longrightarrow> reachable pf (snd (handle pf r s))"

section \<open>The bot (bot.py)\<close>

text \<open>
  The bot is a process of its own. What it can touch is the world: the storage of the
  web application and the messages the bot has sent. A message as the handlers use it
  has the chat it came from, its text if it has one, and the data a mini application
  sent with it if it has any. The texts are the literals of the source, as UTF-8
  bytes.
\<close>

record web_app_data =
  data :: string
  button_text :: string

record message =
  chat :: int
  message_text :: "string option"
  web_app_data :: "web_app_data option"

type_synonym inline_keyboard = "(string \<times> string) list list"

record sent =
  to_chat :: int
  body :: string
  reply_markup :: "inline_keyboard option"

record world =
  storage :: app_state
  outbox :: "sent list"

definition open_catalog :: string where
  "open_catalog = [
      CHR 0xD0, CHR 0x9E, CHR 0xD1, CHR 0x82, CHR 0xD0, CHR 0xBA, CHR 0xD1, CHR 0x80,
      CHR 0xD1, CHR 0x8B, CHR 0xD1, CHR 0x82, CHR 0xD1, CHR 0x8C, CHR 0x20, CHR 0xD0,
      CHR 0xBA, CHR 0xD0, CHR 0xB0, CHR 0xD1, CHR 0x82, CHR 0xD0, CHR 0xB0, CHR 0xD0,
      CHR 0xBB, CHR 0xD0, CHR 0xBE, CHR 0xD0, CHR 0xB3]"

definition greeting :: string where
  "greeting = [
      CHR 0xD0, CHR 0x9F, CHR 0xD1, CHR 0x80, CHR 0xD0, CHR 0xB8, CHR 0xD0, CHR 0xB2,
      CHR 0xD0, CHR 0xB5, CHR 0xD1, CHR 0x82, CHR 0x21, CHR 0x20, CHR 0xD0, CHR 0x9D,
      CHR 0xD0, CHR 0xB0, CHR 0xD0, CHR 0xB6, CHR 0xD0, CHR 0xBC, CHR 0xD0, CHR 0xB8,
      CHR 0xD1, CHR 0x82, CHR 0xD0, CHR 0xB5, CHR 0x20, CHR 0xD0, CHR 0xBA, CHR 0xD0,
      CHR 0xBD, CHR 0xD0, CHR 0xBE, CHR 0xD0, CHR 0xBF, CHR 0xD0, CHR 0xBA, CHR 0xD1,
      CHR 0x83, CHR 0x20, CHR 0xD0, CHR 0xBD, CHR 0xD0, CHR 0xB8, CHR 0xD0, CHR 0xB6,
      CHR 0xD0, CHR 0xB5, CHR 0x2C, CHR 0x20, CHR 0xD1, CHR 0x87, CHR 0xD1, CHR 0x82,
      CHR 0xD0, CHR 0xBE, CHR 0xD0, CHR 0xB1, CHR 0xD1, CHR 0x8B, CHR 0x20, CHR 0xD0,
      CHR 0xBE, CHR 0xD1, CHR 0x82, CHR 0xD0, CHR 0xBA, CHR 0xD1, CHR 0x80, CHR 0xD1,
      CHR 0x8B, CHR 0xD1, CHR 0x82, CHR 0xD1, CHR 0x8C, CHR 0x20, CHR 0xD0, CHR 0xBA,
      CHR 0xD0, CHR 0xB0, CHR 0xD1, CHR 0x82, CHR 0xD0, CHR 0xB0, CHR 0xD0, CHR 0xBB,
      CHR 0xD0, CHR 0xBE, CHR 0xD0, CHR 0xB3, CHR 0x20, CHR 0xD0, CHR 0xBA, CHR 0xD0,
      CHR 0xBE, CHR 0xD0, CHR 0xBD, CHR 0xD1, CHR 0x82, CHR 0xD0, CHR 0xB5, CHR 0xD0,
      CHR 0xBD, CHR 0xD1, CHR 0x82, CHR 0xD0, CHR 0xB0, CHR 0x2E]"

definition received_prefix :: string where
  "received_prefix = [
      CHR 0xD0, CHR 0x9F, CHR 0xD0, CHR 0xBE, CHR 0xD0, CHR 0xBB, CHR 0xD1, CHR 0x83,
      CHR 0xD1, CHR 0x87, CHR 0xD0, CHR 0xB5, CHR 0xD0, CHR 0xBD, CHR 0xD1, CHR 0x8B,
      CHR 0x20, CHR 0xD0, CHR 0xB4, CHR 0xD0, CHR 0xB0, CHR 0xD0, CHR 0xBD, CHR 0xD0,
      CHR 0xBD, CHR 0xD1, CHR 0x8B, CHR 0xD0, CHR 0xB5, CHR 0x20, CHR 0xD0, CHR 0xB8,
      CHR 0xD0, CHR 0xB7, CHR 0x20, CHR 0xD0, CHR 0xBC, CHR 0xD0, CHR 0xB8, CHR 0xD0,
      CHR 0xBD, CHR 0xD0, CHR 0xB8, CHR 0xE2, CHR 0x80, CHR 0x91, CHR 0xD0, CHR 0xBF,
      CHR 0xD1, CHR 0x80, CHR 0xD0, CHR 0xB8, CHR 0xD0, CHR 0xBB, CHR 0xD0, CHR 0xBE,
      CHR 0xD0, CHR 0xB6, CHR 0xD0, CHR 0xB5, CHR 0xD0, CHR 0xBD, CHR 0xD0, CHR 0xB8,
      CHR 0xD1, CHR 0x8F, CHR 0x3A, CHR 0x20]"

text \<open>\<open>message.answer(text, reply_markup=...)\<close>: one message to the chat of the incoming one.\<close>

definition answer :: "message \<Rightarrow> string \<Rightarrow> inline_keyboard option \<Rightarrow> world \<Rightarrow> world" where
  "answer m txt markup w =
     w\<lparr>outbox := outbox w @ [\<lparr>to_chat = chat m, body = txt, reply_markup = markup\<rparr>]\<rparr>"

text \<open>\<open>main\<close> refuses to start without its two settings.\<close>

definition main_config :: "(string \<rightharpoonup> string) \<Rightarrow> error + string \<times> string" where
  "main_config env =
     (case (env ''TELEGRAM_BOT_TOKEN'', env ''WEB_APP_URL'') of
        (Some token, Some web_app_url) \<Rightarrow>
          if token = [] \<or> web_app_url = [] then Inl RuntimeError else Inr (token, web_app_url)
      | _ \<Rightarrow> Inl RuntimeError)"

definition handle_start :: "string \<Rightarrow> message \<Rightarrow> world \<Rightarrow> error + world" where
  "handle_start web_app_url m w =
     Inr (answer m greeting
            (Some [[(open_catalog,
                     rev (dropWhile (\<lambda>c. c = CHR ''/'') (rev web_app_url)) @ ''/mini-app'')]]) w)"

definition handle_web_app_data :: "message \<Rightarrow> world \<Rightarrow> error + world" where
  "handle_web_app_data m w =
     (case web_app_data m of
        None \<Rightarrow> Inl AttributeError
      | Some wad \<Rightarrow> Inr (answer m (received_prefix @ data wad) None w))"

text \<open>
  The dispatcher offers a message to the handlers in the order of their registration;
  the first whose filter accepts it runs. \<open>command_start\<close> stands for the library's
  \<open>CommandStart()\<close> filter; the filter \<open>F.web_app_data\<close> accepts a message that carries
  data of a mini application.
\<close>

definition on_message :: "(message \<Rightarrow> bool) \<Rightarrow> string \<Rightarrow> message \<Rightarrow> world \<Rightarrow> error + world" where
  "on_message command_start web_app_url m w =
     (if command_start m then handle_start web_app_url m w
      else if web_app_data m \<noteq> None then handle_web_app_data m w
      else Inr w)"

section \<open>Properties of the stored state\<close>

text \<open>
  A video references exactly one category when exactly one row of the category table
  has the id the video carries. The category table's id is its primary key, so the
  database keeps the ids distinct. The names are what the catalogue keeps distinct.
  Video ids grow with every insertion.
\<close>

definition references_one_category :: "category list \<Rightarrow> video_content \<Rightarrow> bool" where
  "references_one_category cs v = (length (filter (\<lambda>c. cat_id c = category_id v) cs) = 1)"

definition primary_keys_unique :: "app_state \<Rightarrow> bool" where
  "primary_keys_unique s = distinct (map cat_id (categories s))"

definition catalog_invariant :: "app_state \<Rightarrow> bool" where
  "catalog_invariant s =
     ((\<forall>v\<in>set (videos s). references_one_category (categories s) v)
      \<and> distinct (map cat_name (categories s)))"

definition ids_increasing :: "app_state \<Rightarrow> bool" where
  "ids_increasing s = sorted_wrt (<) (map vid_id (videos s))"

section \<open>Names of repeated uploads\<close>

text \<open>
  \<open>claimed_name\<close> follows the words of the specification: the first upload of a name
  keeps the sanitised name, the upload after \<open>k\<close> earlier ones gets the counter \<open>k\<close>
  before the extension. \<open>stored_name\<close> is what the code is shown to store: the same,
  except that an empty sanitised name is numbered from the first upload on.
  \<open>upload_named\<close> holds of every request that is not an upload, and of an upload whose
  file part, when it has one, carries the given file name.
\<close>

definition claimed_name :: "string \<Rightarrow> nat \<Rightarrow> string" where
  "claimed_name sanitized k =
     (if k = 0 then sanitized else renamed (rsplit1 CHR ''.'' sanitized) k)"

definition stored_name :: "string \<Rightarrow> nat \<Rightarrow> string" where
  "stored_name sanitized k =
     (if sanitized = [] then claimed_name sanitized (k + 1) else claimed_name sanitized k)"


section \<open>A platform and states for the examples\<close>

text \<open>
  The platform of the examples: the two library instances of above, an empty process
  environment (so the default credentials hold), file names of up to 255 bytes, and a
  file system that takes every write.
\<close>

definition demo_platform :: platform where
  "demo_platform =
     \<lparr>secure_filename_of = secure_filename, int_of = py_int, environ = Map.empty,
      name_max = 255, write_ok = (\<lambda>fs name bytes. True)\<rparr>"

text \<open>
  The scenario of the specification after its first upload: the administrator is logged
  in, the category Finance exists and holds one video whose analysis was never set.
\<close>

definition demo_state :: app_state where
  "demo_state =
     \<lparr>categories = [\<lparr>cat_id = 1, cat_name = ''Finance''\<rparr>],
      videos = [\<lparr>vid_id = 1, title = ''Q1 Report'', video_filename = ''report.mp4'',
                 analysis = None, category_id = 1\<rparr>],
      uploads = fmupd ''report.mp4'' ''bytes'' fmempty,
      session = [''logged_in'' \<mapsto> True]\<rparr>"

text \<open>
  The scenario from the start: log in with the default credentials, create the category
  Finance, then upload three videos A, B and C whose files all carry the same name.
\<close>

definition demo_form :: "string \<Rightarrow> form" where
  "demo_form ttl = [''title'' \<mapsto> ttl, ''category_id'' \<mapsto> ''1'']"

definition demo_file :: "string \<Rightarrow> file_fields" where
  "demo_file name = [''video_file'' \<mapsto> \<lparr>filename = name, payload = ''data''\<rparr>]"

definition demo_requests :: "string \<Rightarrow> request list" where
  "demo_requests name =
     [Req_admin_login POST 40 [''username'' \<mapsto> ''admin'', ''password'' \<mapsto> ''admin''],
      Req_admin_add_category 20 [''name'' \<mapsto> ''Finance''],
      Req_admin_add_video 400 (demo_form ''A'') (demo_file name),
      Req_admin_add_video 400 (demo_form ''B'') (demo_file name),
      Req_admin_add_video 400 (demo_form ''C'') (demo_file name)]"

text \<open>
  A message of the bot's examples: data sent by the mini application from chat 42. The
  filter of the examples accepts a message whose text begins with the start command.
\<close>

definition demo_message :: message where
  "demo_message =
     \<lparr>chat = 42, message_text = None,
      web_app_data = Some \<lparr>data = ''ping'', button_text = ''Send''\<rparr>\<rparr>"

definition demo_command_start :: "message \<Rightarrow> bool" where
  "demo_command_start m =
     (case message_text m of None \<Rightarrow> False | Some t \<Rightarrow> take 6 t = ''/start'')"

text \<open>A file name of 304 bytes, all of them safe characters.\<close>

definition long_file_name :: string where
  "long_file_name = replicate 300 CHR ''a'' @ ''.mp4''"

lemmas python_defs = strip_def whitespace_def ascii_whitespace_def wide_whitespace_def
  drop_leading.simps py_int_def int_whitespace_def int_body_def isdigit_def digit_val_def
  get_default_def

lemmas sanitiser_defs = secure_filename_def strip_chars_def filename_safe_char_def isspace_def
  ascii_whitespace_def

section \<open>Queries and the collision loop\<close>

lemma category_by_name_None:
  "category_by_name cs n = None \<longleftrightarrow> (\<forall>c\<in>set cs. cat_name c \<noteq> n)"
  by (auto simp: category_by_name_def find_None_iff)

lemma video_get_found: "video_get vs i = Inr (Some v) \<Longrightarrow> v \<in> set vs \<and> vid_id v = i"
  by (auto simp: video_get_def find_Some_iff split: option.splits if_splits)

lemma video_get_absent:
  "(\<forall>v\<in>set vs. vid_id v \<noteq> i)
   \<Longrightarrow> video_get vs i = (if sqlite_int i then Inr None else Inl OverflowError)"
  by (simp add: video_get_def find_None_iff [THEN iffD2])

lemma video_get_present: "\<exists>v\<in>set vs. vid_id v = i \<Longrightarrow> \<exists>v. video_get vs i = Inr (Some v)"
proof -
  assume "\<exists>v\<in>set vs. vid_id v = i"
  then have "find (\<lambda>v. vid_id v = i) vs \<noteq> None" by (auto simp: find_None_iff)
  then show ?thesis by (auto simp: video_get_def)
qed

lemma category_get_found: "category_get cs i = Inr (Some c) \<Longrightarrow> c \<in> set cs \<and> cat_id c = i"
  by (auto simp: category_get_def find_Some_iff split: option.splits if_splits)

lemma category_get_present:
  "\<exists>c\<in>set cs. cat_id c = i \<Longrightarrow> \<exists>c. category_get cs i = Inr (Some c)"
proof -
  assume "\<exists>c\<in>set cs. cat_id c = i"
  then have "find (\<lambda>c. cat_id c = i) cs \<noteq> None" by (auto simp: find_None_iff)
  then show ?thesis by (auto simp: category_get_def)
qed

lemma rsplit1_no_sep: "sep \<notin> set s \<Longrightarrow> rsplit1 sep s = [s]"
  by (simp add: rsplit1_def)

lemma py_str_digits: "set (py_str n) \<subseteq> set ''0123456789''"
proof (induction n rule: py_str.induct)
  case (1 n)
  have d: "\<And>k. k < 10 \<Longrightarrow> ''0123456789'' ! k \<in> set ''0123456789''"
    by (rule nth_mem) simp
  show ?case
  proof (cases "n < 10")
    case True
    then have "py_str n = [''0123456789'' ! n]" by (subst py_str.simps) simp
    with d [OF True] show ?thesis by simp
  next
    case False
    then have "py_str n = py_str (n div 10) @ [''0123456789'' ! (n mod 10)]"
      by (subst py_str.simps) simp
    moreover have "''0123456789'' ! (n mod 10) \<in> set ''0123456789''" by (rule d) simp
    ultimately show ?thesis using "1.IH" [OF False] by simp
  qed
qed

lemma py_str_no_dot: "CHR ''.'' \<notin> set (py_str n)"
  using py_str_digits [of n] by auto

text \<open>The three ways one round of the loop can go.\<close>

lemma resolve_loop_raise:
  "path_exists nm fs fname = Inl e \<Longrightarrow> resolve_loop nm fs on fname counter = Inl e"
  by (subst resolve_loop.simps) simp

lemma resolve_loop_taken:
  "path_exists nm fs fname = Inr True
   \<Longrightarrow> resolve_loop nm fs on fname counter
       = resolve_loop nm fs on (renamed on counter) (Suc counter)"
  by (subst resolve_loop.simps) simp

lemma resolve_loop_found:
  "path_exists nm fs fname = Inr False \<Longrightarrow> resolve_loop nm fs on fname counter = Inr fname"
  by (subst resolve_loop.simps) simp

lemma path_exists_cases:
  obtains (raise) "path_exists nm fs fname = Inl OSError" "nm < length fname"
  | (taken) "path_exists nm fs fname = Inr True" "fname = [] \<or> fname |\<in>| fmdom fs"
  | (found) "path_exists nm fs fname = Inr False" "fname \<noteq> []" "fname |\<notin>| fmdom fs"
      "length fname \<le> nm"
  by (cases "nm < length fname"; cases "fname = [] \<or> fname |\<in>| fmdom fs")
    (auto simp: path_exists_def)

text \<open>A name the loop returns does not exist in the folder and the file system takes it.\<close>

lemma resolve_loop_free:
  "resolve_loop nm fs on fname counter = Inr n
   \<Longrightarrow> n \<noteq> [] \<and> n |\<notin>| fmdom fs \<and> length n \<le> nm"
proof (induction nm fs on fname counter rule: resolve_loop.induct)
  case (1 nm fs on fname counter)
  show ?case
  proof (cases rule: path_exists_cases [of nm fs fname])
    case raise
    with "1.prems" show ?thesis by (simp add: resolve_loop_raise)
  next
    case taken
    with "1.prems" have "resolve_loop nm fs on (renamed on counter) (counter + 1) = Inr n"
      by (simp add: resolve_loop_taken)
    with "1.IH" [OF taken(1)] show ?thesis by simp
  next
    case found
    with "1.prems" show ?thesis by (simp add: resolve_loop_found)
  qed
qed

text \<open>It is the name the loop started from or one of the later candidates.\<close>

lemma resolve_loop_shape:
  "resolve_loop nm fs on fname counter = Inr n
   \<Longrightarrow> n = fname \<or> (\<exists>k\<ge>counter. n = renamed on k)"
proof (induction nm fs on fname counter rule: resolve_loop.induct)
  case (1 nm fs on fname counter)
  show ?case
  proof (cases rule: path_exists_cases [of nm fs fname])
    case raise
    with "1.prems" show ?thesis by (simp add: resolve_loop_raise)
  next
    case taken
    with "1.prems" have "resolve_loop nm fs on (renamed on counter) (counter + 1) = Inr n"
      by (simp add: resolve_loop_taken)
    with "1.IH" [OF taken(1)]
    have "n = renamed on counter \<or> (\<exists>k\<ge>counter + 1. n = renamed on k)" by simp
    then show ?thesis
    proof
      assume "n = renamed on counter"
      then show ?thesis by auto
    next
      assume "\<exists>k\<ge>counter + 1. n = renamed on k"
      then obtain k where "counter + 1 \<le> k" "n = renamed on k" by blast
      then have "counter \<le> k \<and> n = renamed on k" by simp
      then show ?thesis by blast
    qed
  next
    case found
    with "1.prems" show ?thesis by (simp add: resolve_loop_found)
  qed
qed

text \<open>The only exception the loop can end with is the one of the test.\<close>

lemma resolve_loop_error: "resolve_loop nm fs on fname counter = Inl e \<Longrightarrow> e = OSError"
proof (induction nm fs on fname counter rule: resolve_loop.induct)
  case (1 nm fs on fname counter)
  show ?case
  proof (cases rule: path_exists_cases [of nm fs fname])
    case raise
    with "1.prems" show ?thesis by (simp add: resolve_loop_raise)
  next
    case taken
    with "1.prems" have "resolve_loop nm fs on (renamed on counter) (counter + 1) = Inl e"
      by (simp add: resolve_loop_taken)
    with "1.IH" [OF taken(1)] show ?thesis by simp
  next
    case found
    with "1.prems" show ?thesis by (simp add: resolve_loop_found)
  qed
qed

text \<open>A free name that the file system takes is returned as it is.\<close>

lemma resolve_filename_free:
  "s \<noteq> [] \<Longrightarrow> s |\<notin>| fmdom fs \<Longrightarrow> length s \<le> nm \<Longrightarrow> resolve_filename nm fs s = Inr s"
  by (simp add: resolve_filename_def resolve_loop_found path_exists_def)

section \<open>The session gate\<close>

text \<open>
  Claim C3. In a session whose admin flag is not set, \<open>admin_add_category\<close> and
  \<open>admin_add_video\<close> answer with a redirect to the login page and return the state as
  it was: categories, videos, upload folder and session. This holds for every request,
  whatever its form, files and content length.
\<close>

theorem gate_blocks_add_category_and_add_video:
  assumes "\<not> logged_in s"
  shows "admin_add_category len form s = (Redirect Admin_login, s)
       \<and> admin_add_video pf len form ff s = (Redirect Admin_login, s)"
  using assms by (simp add: admin_add_category_def admin_add_video_def login_required_def)

theorem gate_blocks_add_category_and_add_video_witness:
  "\<not> logged_in initial
   \<and> admin_add_category 20 [''name'' \<mapsto> ''Finance''] initial = (Redirect Admin_login, initial)
   \<and> admin_add_video demo_platform 400 [''title'' \<mapsto> ''Q1'', ''category_id'' \<mapsto> ''1'']
         [''video_file'' \<mapsto> \<lparr>filename = ''report.mp4'', payload = ''bytes''\<rparr>] initial
       = (Redirect Admin_login, initial)"
proof -
  have h: "\<not> logged_in initial" by (simp add: logged_in_def initial_def)
  show ?thesis using h gate_blocks_add_category_and_add_video [OF h] by simp
qed

text \<open>
  Claim C9. A request to the logout route from a session that has no admin flag is
  answered with a redirect to the login page and leaves the state, the session
  included, as it was. The route is not wrapped by \<open>login_required\<close>; removing a key
  that is absent changes nothing, so the route answers exactly as the wrapped route
  would.
\<close>

theorem logout_without_flag_is_redirect:
  assumes "session s ''logged_in'' = None"
  shows "admin_logout s = (Redirect Admin_login, s)
       \<and> admin_logout s = login_required admin_logout s"
proof -
  have "(session s)(''logged_in'' := None) = session s"
    using assms by (simp add: fun_upd_idem_iff)
  then have "admin_logout s = (Redirect Admin_login, s)" by (simp add: admin_logout_def)
  moreover have "\<not> logged_in s" using assms by (simp add: logged_in_def)
  ultimately show ?thesis by (simp add: login_required_def)
qed

theorem logout_without_flag_is_redirect_witness:
  "session initial ''logged_in'' = None \<and> admin_logout initial = (Redirect Admin_login, initial)"
proof -
  have h: "session initial ''logged_in'' = None" by (simp add: initial_def)
  show ?thesis using h logout_without_flag_is_redirect [OF h] by simp
qed

section \<open>Creating a category\<close>



section \<open>Video details\<close>

text \<open>
  Claim C6, as the code has it. For an id within the signed 64-bit range of the
  database, \<open>api_video_details\<close> answers Not_found exactly when no stored video has the
  id. When a stored video has the id (its key is within the range), the answer is the
  whole object: the id, the title, the external URL of the stored file and the
  analysis, which is the empty string when the column is unset. The state is never
  changed.
\<close>

theorem video_details_not_found_iff_absent:
  assumes "sqlite_int i"
  shows "(fst (api_video_details i s) = Not_found \<longleftrightarrow> (\<forall>v\<in>set (videos s). vid_id v \<noteq> i))
       \<and> ((\<exists>v\<in>set (videos s). vid_id v = i) \<longrightarrow>
            (\<exists>v\<in>set (videos s). vid_id v = i \<and>
               fst (api_video_details i s) =
                 Json_video \<lparr>vd_id = i, vd_title = title v,
                             vd_video_url = Url_for (Uploaded_file (video_filename v)) True,
                             vd_analysis = (case analysis v of None \<Rightarrow> [] | Some a \<Rightarrow> a)\<rparr>))
       \<and> snd (api_video_details i s) = s"
proof (cases "\<forall>v\<in>set (videos s). vid_id v \<noteq> i")
  case True
  then have "video_get (videos s) i = Inr None" using assms by (simp add: video_get_absent)
  with True show ?thesis by (auto simp: api_video_details_def)
next
  case False
  then have "\<exists>v\<in>set (videos s). vid_id v = i" by blast
  from video_get_present [OF this] obtain v where v: "video_get (videos s) i = Inr (Some v)"
    by blast
  then have "v \<in> set (videos s)" "vid_id v = i" by (auto dest: video_get_found)
  with v False show ?thesis
    by (auto simp: api_video_details_def or_empty_def split: option.splits)
qed

theorem video_details_not_found_iff_absent_witness:
  "sqlite_int 7 \<and> sqlite_int 1
   \<and> fst (api_video_details 7 demo_state) = Not_found
   \<and> fst (api_video_details 1 demo_state) =
       Json_video \<lparr>vd_id = 1, vd_title = ''Q1 Report'',
                   vd_video_url = Url_for (Uploaded_file ''report.mp4'') True, vd_analysis = []\<rparr>"
proof -
  have h7: "sqlite_int 7" and h1: "sqlite_int 1" by (simp_all add: sqlite_int_def)
  have vs: "videos demo_state =
      [\<lparr>vid_id = 1, title = ''Q1 Report'', video_filename = ''report.mp4'',
        analysis = None, category_id = 1\<rparr>]"
    by (simp add: demo_state_def)
  show ?thesis
    using h7 h1 video_details_not_found_iff_absent [OF h7, of demo_state]
      video_details_not_found_iff_absent [OF h1, of demo_state]
    by (simp add: vs)
qed

text \<open>
  Claim C6 as stated fails at this input: no stored video has the id 2^63, yet the
  answer is not Not_found, for the lookup raises OverflowError.
\<close>

theorem video_details_of_an_id_beyond_the_database_range:
  "9223372036854775808 \<notin> vid_id ` set (videos demo_state)
   \<and> fst (api_video_details 9223372036854775808 demo_state) = Server_error OverflowError
   \<and> fst (api_video_details 9223372036854775808 demo_state) \<noteq> Not_found"
  by (simp add: demo_state_def api_video_details_def video_get_def sqlite_int_def)

section \<open>Names without an extension\<close>

text \<open>
  Claim C10. When the sanitised name has no dot, every name the collision loop tries is
  the sanitised name followed by an underscore and the counter, with no dot added. The
  loop ends with the sanitised name, with one of these names, or with the exception of
  a test on a name too long for the file system; a name it returns contains no dot at
  all, in particular none at its end.
\<close>

theorem names_without_dot_get_plain_suffix:
  assumes "CHR ''.'' \<notin> set s"
  shows "(\<forall>k. renamed (rsplit1 CHR ''.'' s) k = s @ ''_'' @ py_str k)
       \<and> (resolve_filename nm fs s = Inl OSError
          \<or> resolve_filename nm fs s = Inr s
          \<or> (\<exists>k\<ge>1. resolve_filename nm fs s = Inr (s @ ''_'' @ py_str k)))
       \<and> (\<forall>n. resolve_filename nm fs s = Inr n \<longrightarrow> CHR ''.'' \<notin> set n)"
proof -
  have r: "\<And>k. renamed (rsplit1 CHR ''.'' s) k = s @ ''_'' @ py_str k"
    using assms by (simp add: rsplit1_no_sep renamed_def)
  have sh: "n = s \<or> (\<exists>k\<ge>1. n = s @ ''_'' @ py_str k)" if "resolve_filename nm fs s = Inr n" for n
    using resolve_loop_shape [of nm fs "rsplit1 CHR ''.'' s" s 1 n] that
    by (simp add: resolve_filename_def r)
  have nodot: "CHR ''.'' \<notin> set n" if "resolve_filename nm fs s = Inr n" for n
    using sh [OF that] assms by (auto simp: py_str_no_dot)
  have "resolve_filename nm fs s = Inl OSError
      \<or> resolve_filename nm fs s = Inr s
      \<or> (\<exists>k\<ge>1. resolve_filename nm fs s = Inr (s @ ''_'' @ py_str k))"
  proof (cases "resolve_filename nm fs s")
    case (Inl e)
    then show ?thesis by (cases e) (auto simp: resolve_filename_def dest: resolve_loop_error)
  next
    case (Inr n)
    with sh [OF Inr] show ?thesis by auto
  qed
  with r nodot show ?thesis by blast
qed

theorem names_without_dot_get_plain_suffix_witness:
  "CHR ''.'' \<notin> set ''README''
   \<and> renamed (rsplit1 CHR ''.'' ''README'') 2 = ''README_2''
   \<and> resolve_filename 255 (fmupd ''README'' ''x'' fmempty) ''README'' = Inr ''README_1''"
proof -
  have h: "CHR ''.'' \<notin> set ''README''" by simp
  have "resolve_filename 255 (fmupd ''README'' ''x'' fmempty) ''README'' = Inr ''README_1''"
    by (simp add: resolve_filename_def resolve_loop.simps rsplit1_def path_exists_def renamed_def
        py_str.simps)
  then show ?thesis
    using h names_without_dot_get_plain_suffix [OF h, of 255 "fmupd ''README'' ''x'' fmempty"]
    by (simp add: py_str.simps)
qed

section \<open>Uploading a video\<close>

text \<open>What a valid upload does, step by step.\<close>

lemma add_video_view_valid:
  assumes "content_length \<le> MAX_CONTENT_LENGTH"
    and "strip (get_default form ''title'' []) \<noteq> []"
    and "form ''category_id'' = Some cid" and "cid \<noteq> []" and "int_of pf cid = Some n"
    and "category_get (categories s) n = Inr (Some c)"
    and "ff ''video_file'' = Some file" and "filename file \<noteq> []"
    and "resolve_filename (name_max pf) (uploads s) (secure_filename_of pf (filename file))
         = Inr fname"
    and "write_ok pf (uploads s) fname (payload file)"
  shows "admin_add_video_view pf content_length form ff s =
           (Redirect Admin_index,
            add_video (strip (get_default form ''title'' [])) fname
              (strip (get_default form ''analysis'' [])) c
              (s\<lparr>uploads := fmupd fname (payload file) (uploads s)\<rparr>))"
  using assms by (simp add: admin_add_video_view_def Let_def file_save_def)

text \<open>
  Claim C1, as the code has it. A logged-in administrator uploads, in a request within
  the size limit, with a title that is not empty after trimming, a category id that
  parses to the id of a stored category, and a file part with a file name; the
  collision loop returns a name (no name it tries is too long for the file system) and
  the file system takes the write. Then the call appends exactly one video record and
  writes exactly one file: the record carries the trimmed title and the category, its
  file name is the name the loop returned, which is not empty, was free before the call
  and fits the file system, and after the call the folder holds the uploaded bytes
  under it.
\<close>

theorem valid_upload_creates_one_video_with_stored_file:
  assumes "logged_in s" and "content_length \<le> MAX_CONTENT_LENGTH"
    and "strip (get_default form ''title'' []) \<noteq> []"
    and "form ''category_id'' = Some cid" and "cid \<noteq> []" and "int_of pf cid = Some n"
    and "\<exists>c\<in>set (categories s). cat_id c = n"
    and "ff ''video_file'' = Some file" and "filename file \<noteq> []"
    and "resolve_filename (name_max pf) (uploads s) (secure_filename_of pf (filename file))
         = Inr fname"
    and "write_ok pf (uploads s) fname (payload file)"
  shows "\<exists>v. admin_add_video pf content_length form ff s =
               (Redirect Admin_index,
                s\<lparr>videos := videos s @ [v],
                  uploads := fmupd (video_filename v) (payload file) (uploads s)\<rparr>)
           \<and> title v = strip (get_default form ''title'' [])
           \<and> category_id v = n
           \<and> video_filename v = fname
           \<and> video_filename v \<noteq> []
           \<and> video_filename v |\<notin>| fmdom (uploads s)
           \<and> length (video_filename v) \<le> name_max pf
           \<and> fmlookup (uploads (snd (admin_add_video pf content_length form ff s)))
                (video_filename v) = Some (payload file)"
proof -
  from category_get_present [OF assms(7)]
  obtain c where c: "category_get (categories s) n = Inr (Some c)" by blast
  then have cn: "cat_id c = n" by (simp add: category_get_found)
  let ?v = "\<lparr>vid_id = next_id (map vid_id (videos s)),
             title = strip (get_default form ''title'' []), video_filename = fname,
             analysis = Some (strip (get_default form ''analysis'' [])), category_id = n\<rparr>"
  have free: "fname \<noteq> [] \<and> fname |\<notin>| fmdom (uploads s) \<and> length fname \<le> name_max pf"
    using assms(10) unfolding resolve_filename_def by (rule resolve_loop_free)
  have "admin_add_video pf content_length form ff s =
      (Redirect Admin_index,
       s\<lparr>videos := videos s @ [?v], uploads := fmupd fname (payload file) (uploads s)\<rparr>)"
    using assms(1)
      add_video_view_valid [where form = form and ff = ff and pf = pf and s = s,
        OF assms(2,3,4,5,6) c assms(8,9,10,11)]
    by (simp add: admin_add_video_def login_required_def add_video_def cn)
  with free show ?thesis by (intro exI [of _ ?v]) simp
qed

theorem valid_upload_creates_one_video_with_stored_file_witness:
  "logged_in demo_state
   \<and> strip (get_default [''title'' \<mapsto> '' Q2 Report '', ''category_id'' \<mapsto> ''1''] ''title'' []) \<noteq> []
   \<and> py_int ''1'' = Some 1
   \<and> (\<exists>c\<in>set (categories demo_state). cat_id c = 1)
   \<and> resolve_filename 255 (uploads demo_state) (secure_filename ''report.mp4'')
       = Inr ''report_1.mp4''
   \<and> admin_add_video demo_platform 400 [''title'' \<mapsto> '' Q2 Report '', ''category_id'' \<mapsto> ''1'']
        [''video_file'' \<mapsto> \<lparr>filename = ''report.mp4'', payload = ''more bytes''\<rparr>] demo_state
      = (Redirect Admin_index,
         demo_state\<lparr>videos := videos demo_state @
                      [\<lparr>vid_id = 2, title = ''Q2 Report'', video_filename = ''report_1.mp4'',
                        analysis = Some [], category_id = 1\<rparr>],
                    uploads := fmupd ''report_1.mp4'' ''more bytes'' (uploads demo_state)\<rparr>)"
proof -
  let ?form = "[''title'' \<mapsto> '' Q2 Report '', ''category_id'' \<mapsto> ''1'']"
  let ?file = "\<lparr>filename = ''report.mp4'', payload = ''more bytes''\<rparr>"
  have h1: "logged_in demo_state" by (simp add: logged_in_def demo_state_def)
  have hl: "(400::nat) \<le> MAX_CONTENT_LENGTH" by (simp add: MAX_CONTENT_LENGTH_def)
  have t: "strip (get_default ?form ''title'' []) = ''Q2 Report''" by (simp add: python_defs)
  have a: "strip (get_default ?form ''analysis'' []) = []" by (simp add: python_defs)
  have h2: "strip (get_default ?form ''title'' []) \<noteq> []" by (simp add: t)
  have h3: "?form ''category_id'' = Some ''1''" by simp
  have hc: "''1'' \<noteq> []" by simp
  have p: "py_int ''1'' = Some 1" by (simp add: python_defs)
  have h4: "int_of demo_platform ''1'' = Some 1" by (simp add: demo_platform_def p)
  have h5: "\<exists>c\<in>set (categories demo_state). cat_id c = 1" by (simp add: demo_state_def)
  have h6: "[''video_file'' \<mapsto> ?file] ''video_file'' = Some ?file" by simp
  have h7: "filename ?file \<noteq> []" by simp
  have sf: "secure_filename ''report.mp4'' = ''report.mp4''" by (simp add: sanitiser_defs)
  have r: "resolve_filename 255 (uploads demo_state) ''report.mp4'' = Inr ''report_1.mp4''"
    by (simp add: demo_state_def resolve_filename_def resolve_loop.simps rsplit1_def
        path_exists_def renamed_def py_str.simps)
  have h8: "resolve_filename (name_max demo_platform) (uploads demo_state)
        (secure_filename_of demo_platform (filename ?file)) = Inr ''report_1.mp4''"
    by (simp add: demo_platform_def sf r)
  have h9: "write_ok demo_platform (uploads demo_state) ''report_1.mp4'' (payload ?file)"
    by (simp add: demo_platform_def)
  have n: "next_id (map vid_id (videos demo_state)) = 2" by (simp add: demo_state_def)
  obtain v where v: "admin_add_video demo_platform 400 ?form [''video_file'' \<mapsto> ?file] demo_state =
        (Redirect Admin_index,
         demo_state\<lparr>videos := videos demo_state @ [v],
                    uploads := fmupd (video_filename v) (payload ?file) (uploads demo_state)\<rparr>)"
      "title v = strip (get_default ?form ''title'' [])" "category_id v = 1"
      "video_filename v = ''report_1.mp4''"
    using valid_upload_creates_one_video_with_stored_file [where form = ?form
        and ff = "[''video_file'' \<mapsto> ?file]" and pf = demo_platform and s = demo_state,
        OF h1 hl h2 h3 hc h4 h5 h6 h7 h8 h9]
    by blast
  have c: "category_get (categories demo_state) 1 = Inr (Some \<lparr>cat_id = 1, cat_name = ''Finance''\<rparr>)"
    by (simp add: demo_state_def category_get_def)
  have "admin_add_video demo_platform 400 ?form [''video_file'' \<mapsto> ?file] demo_state
      = (Redirect Admin_index,
         demo_state\<lparr>videos := videos demo_state @
                      [\<lparr>vid_id = 2, title = ''Q2 Report'', video_filename = ''report_1.mp4'',
                        analysis = Some [], category_id = 1\<rparr>],
                    uploads := fmupd ''report_1.mp4'' ''more bytes'' (uploads demo_state)\<rparr>)"
    using h1 add_video_view_valid [where form = ?form and ff = "[''video_file'' \<mapsto> ?file]"
        and pf = demo_platform and s = demo_state, OF hl h2 h3 hc h4 c h6 h7 h8 h9]
    by (simp add: admin_add_video_def login_required_def add_video_def t a n)
  with v(1) h1 h2 p h5 r sf show ?thesis by simp
qed

text \<open>
  Claim C1 as stated fails at these two inputs, each with a trimmed title that is not
  empty, the id of the stored category and a file part with a file name. The file name
  of the first is 304 bytes long: the test of the collision loop raises OSError and
  nothing is stored. The content length of the second is one byte above the limit: the
  request is answered with status 413 and nothing is stored.
\<close>

theorem valid_upload_beyond_the_limits_stores_nothing:
  "logged_in demo_state
   \<and> strip (get_default [''title'' \<mapsto> '' Q2 Report '', ''category_id'' \<mapsto> ''1''] ''title'' [])
       = ''Q2 Report''
   \<and> py_int ''1'' = Some 1
   \<and> (\<exists>c\<in>set (categories demo_state). cat_id c = 1)
   \<and> length long_file_name = 304
   \<and> admin_add_video demo_platform 400 [''title'' \<mapsto> '' Q2 Report '', ''category_id'' \<mapsto> ''1'']
        [''video_file'' \<mapsto> \<lparr>filename = long_file_name, payload = ''more bytes''\<rparr>] demo_state
      = (Server_error OSError, demo_state)
   \<and> admin_add_video demo_platform 524288001
        [''title'' \<mapsto> '' Q2 Report '', ''category_id'' \<mapsto> ''1'']
        [''video_file'' \<mapsto> \<lparr>filename = ''report.mp4'', payload = ''more bytes''\<rparr>] demo_state
      = (Payload_too_large, demo_state)"
proof -
  let ?form = "[''title'' \<mapsto> '' Q2 Report '', ''category_id'' \<mapsto> ''1'']"
  have h1: "logged_in demo_state" by (simp add: logged_in_def demo_state_def)
  have t: "strip (get_default ?form ''title'' []) = ''Q2 Report''" by (simp add: python_defs)
  have p: "py_int ''1'' = Some 1" by (simp add: python_defs)
  have h5: "\<exists>c\<in>set (categories demo_state). cat_id c = 1" by (simp add: demo_state_def)
  have len: "length long_file_name = 304" by (simp add: long_file_name_def)
  have ne: "long_file_name \<noteq> []" using len by auto
  have sf: "secure_filename long_file_name = long_file_name"
    by (simp add: long_file_name_def sanitiser_defs eval_nat_numeral)
  have "path_exists 255 (uploads demo_state) long_file_name = Inl OSError"
    by (simp add: path_exists_def len)
  then have r: "resolve_filename 255 (uploads demo_state) long_file_name = Inl OSError"
    unfolding resolve_filename_def by (rule resolve_loop_raise)
  have c: "category_get (categories demo_state) 1 = Inr (Some \<lparr>cat_id = 1, cat_name = ''Finance''\<rparr>)"
    by (simp add: demo_state_def category_get_def)
  have long: "admin_add_video demo_platform 400 ?form
        [''video_file'' \<mapsto> \<lparr>filename = long_file_name, payload = ''more bytes''\<rparr>] demo_state
      = (Server_error OSError, demo_state)"
    using h1 ne
    by (simp add: admin_add_video_def login_required_def admin_add_video_view_def Let_def
        MAX_CONTENT_LENGTH_def t demo_platform_def p c sf r)
  have big: "admin_add_video demo_platform 524288001 ?form
        [''video_file'' \<mapsto> \<lparr>filename = ''report.mp4'', payload = ''more bytes''\<rparr>] demo_state
      = (Payload_too_large, demo_state)"
    using h1
    by (simp add: admin_add_video_def login_required_def admin_add_video_view_def
        MAX_CONTENT_LENGTH_def)
  from h1 t p h5 len long big show ?thesis by (intro conjI)
qed

section \<open>Invariants of the catalogue\<close>

lemma next_id_greater: "i \<in> set ids \<Longrightarrow> i < next_id ids"
proof (cases ids)
  case Nil
  assume "i \<in> set ids"
  with Nil show ?thesis by simp
next
  case (Cons x xs)
  assume "i \<in> set ids"
  then have "i \<le> Max (set (x # xs))" using Cons by (intro Max_ge) simp_all
  also have "Max (set (x # xs)) = fold max xs x" by (rule Max.set_eq_fold)
  finally show ?thesis using Cons by simp
qed

lemma next_id_fresh: "next_id ids \<notin> set ids"
  using next_id_greater [of "next_id ids" ids] by auto

lemma count_by_key:
  "distinct (map f xs) \<Longrightarrow> length (filter (\<lambda>x. f x = a) xs) = (if a \<in> f ` set xs then 1 else 0)"
  by (induction xs) auto

lemma count_one_member: "length (filter (\<lambda>x. f x = a) xs) = 1 \<Longrightarrow> a \<in> f ` set xs"
proof -
  assume "length (filter (\<lambda>x. f x = a) xs) = 1"
  then have "filter (\<lambda>x. f x = a) xs \<noteq> []" by auto
  then obtain x where "x \<in> set (filter (\<lambda>x. f x = a) xs)" by (cases "filter (\<lambda>x. f x = a) xs") auto
  then show ?thesis by auto
qed

text \<open>The upload handler either leaves the state alone or stores one file and one record.\<close>

lemma add_video_view_cases:
  "snd (admin_add_video_view pf len form ff s) = s
   \<or> (\<exists>ttl an c fl fname.
         snd (admin_add_video_view pf len form ff s) =
           add_video ttl fname an c (s\<lparr>uploads := fmupd fname (payload fl) (uploads s)\<rparr>)
         \<and> resolve_filename (name_max pf) (uploads s) (secure_filename_of pf (filename fl))
             = Inr fname
         \<and> c \<in> set (categories s) \<and> ff ''video_file'' = Some fl)"
proof (cases "MAX_CONTENT_LENGTH < len")
  case True
  then show ?thesis by (simp add: admin_add_video_view_def)
next
  case small: False
  show ?thesis
  proof (cases "ff ''video_file''")
    case None
    with small show ?thesis by (simp add: admin_add_video_view_def Let_def)
  next
    case fl: (Some fl)
    show ?thesis
    proof (cases "form ''category_id''")
      case None
      with small fl show ?thesis by (simp add: admin_add_video_view_def Let_def)
    next
      case cid: (Some cid)
      show ?thesis
      proof (cases "strip (get_default form ''title'' []) = [] \<or> filename fl = [] \<or> cid = []")
        case True
        with small fl cid show ?thesis by (auto simp: admin_add_video_view_def Let_def)
      next
        case ok: False
        show ?thesis
        proof (cases "int_of pf cid")
          case None
          with small fl cid ok show ?thesis by (simp add: admin_add_video_view_def Let_def)
        next
          case n: (Some n)
          show ?thesis
          proof (cases "category_get (categories s) n")
            case (Inl e)
            with small fl cid ok n show ?thesis by (simp add: admin_add_video_view_def Let_def)
          next
            case got: (Inr found)
            show ?thesis
            proof (cases found)
              case None
              with small fl cid ok n got show ?thesis
                by (simp add: admin_add_video_view_def Let_def)
            next
              case c: (Some c)
              with got have mem: "c \<in> set (categories s)" by (simp add: category_get_found)
              show ?thesis
              proof (cases "resolve_filename (name_max pf) (uploads s)
                              (secure_filename_of pf (filename fl))")
                case (Inl e)
                with small fl cid ok n got c show ?thesis
                  by (simp add: admin_add_video_view_def Let_def)
              next
                case name: (Inr fname)
                show ?thesis
                proof (cases "write_ok pf (uploads s) fname (payload fl)")
                  case False
                  with small fl cid ok n got c name show ?thesis
                    by (simp add: admin_add_video_view_def Let_def file_save_def)
                next
                  case True
                  with small fl cid ok n got c name
                  have "snd (admin_add_video_view pf len form ff s) =
                      add_video (strip (get_default form ''title'' [])) fname
                        (strip (get_default form ''analysis'' [])) c
                        (s\<lparr>uploads := fmupd fname (payload fl) (uploads s)\<rparr>)"
                    by (simp add: admin_add_video_view_def Let_def file_save_def)
                  with mem name fl show ?thesis by blast
                qed
              qed
            qed
          qed
        qed
      qed
    qed
  qed
qed

text \<open>What one request can do to the tables and the folder.\<close>

lemma handle_effect:
  assumes s'_def: "s' = snd (handle pf r s)"
  shows "(categories s' = categories s \<and> videos s' = videos s \<and> uploads s' = uploads s)
       \<or> (\<exists>name. s' = add_category name s \<and> name \<noteq> []
             \<and> category_by_name (categories s) name = None)
       \<or> (\<exists>ttl fname an c bytes.
             s' = add_video ttl fname an c (s\<lparr>uploads := fmupd fname bytes (uploads s)\<rparr>)
             \<and> c \<in> set (categories s) \<and> fname \<noteq> [] \<and> fname |\<notin>| fmdom (uploads s))"
proof (cases r)
  case (Req_admin_login m len form)
  then show ?thesis by (simp add: s'_def admin_login_def Let_def)
next
  case Req_admin_logout
  then show ?thesis by (simp add: s'_def admin_logout_def)
next
  case Req_admin_index
  then show ?thesis by (simp add: s'_def admin_index_def login_required_def)
next
  case (Req_admin_add_category len form)
  then show ?thesis
    by (auto simp: s'_def admin_add_category_def login_required_def admin_add_category_view_def
        Let_def)
next
  case (Req_admin_add_video len form ff)
  show ?thesis
  proof (cases "logged_in s")
    case False
    with Req_admin_add_video show ?thesis
      by (simp add: s'_def admin_add_video_def login_required_def)
  next
    case True
    from True Req_admin_add_video have eq: "s' = snd (admin_add_video_view pf len form ff s)"
      by (simp add: s'_def admin_add_video_def login_required_def)
    from add_video_view_cases [of pf len form ff s] show ?thesis
    proof (elim disjE exE conjE)
      assume "snd (admin_add_video_view pf len form ff s) = s"
      with eq show ?thesis by simp
    next
      fix ttl an c fl fname
      assume a: "snd (admin_add_video_view pf len form ff s) =
          add_video ttl fname an c (s\<lparr>uploads := fmupd fname (payload fl) (uploads s)\<rparr>)"
        and r: "resolve_filename (name_max pf) (uploads s)
            (secure_filename_of pf (filename fl)) = Inr fname"
        and c: "c \<in> set (categories s)"
      from r have "fname \<noteq> [] \<and> fname |\<notin>| fmdom (uploads s) \<and> length fname \<le> name_max pf"
        unfolding resolve_filename_def by (rule resolve_loop_free)
      with a c eq show ?thesis by blast
    qed
  qed
next
  case (Req_uploaded_file name)
  then show ?thesis by (simp add: s'_def uploaded_file_def split: option.splits)
next
  case Req_api_categories
  then show ?thesis by (simp add: s'_def api_categories_def)
next
  case (Req_api_videos_by_category cid)
  then show ?thesis
    by (simp add: s'_def api_videos_by_category_def split: sum.splits option.splits)
next
  case (Req_api_video_details vid)
  then show ?thesis
    by (simp add: s'_def api_video_details_def split: sum.splits option.splits)
next
  case Req_mini_app
  then show ?thesis by (simp add: s'_def mini_app_def)
next
  case Req_index
  then show ?thesis by (simp add: s'_def index_def)
qed

lemma add_category_keeps_invariant:
  assumes "primary_keys_unique s" "catalog_invariant s"
    and "category_by_name (categories s) name = None"
  shows "catalog_invariant (add_category name s) \<and> primary_keys_unique (add_category name s)"
proof -
  let ?new = "next_id (map cat_id (categories s))"
  have fresh: "?new \<notin> cat_id ` set (categories s)"
    using next_id_fresh [of "map cat_id (categories s)"] by simp
  have name: "name \<notin> cat_name ` set (categories s)"
    using assms(3) by (auto simp: category_by_name_None)
  have "references_one_category (categories s @ [\<lparr>cat_id = ?new, cat_name = name\<rparr>]) v"
    if "v \<in> set (videos s)" for v
  proof -
    from that assms(2) have one: "references_one_category (categories s) v"
      by (simp add: catalog_invariant_def)
    then have "category_id v \<in> cat_id ` set (categories s)"
      unfolding references_one_category_def by (rule count_one_member)
    with fresh have "?new \<noteq> category_id v" by auto
    with one show ?thesis by (simp add: references_one_category_def)
  qed
  then show ?thesis
    using assms(1,2) fresh name
    by (simp add: catalog_invariant_def primary_keys_unique_def add_category_def)
qed

lemma add_video_keeps_invariant:
  assumes "primary_keys_unique s" "catalog_invariant s" and "c \<in> set (categories s)"
  shows "catalog_invariant (add_video ttl fname an c (s\<lparr>uploads := fs\<rparr>))
       \<and> primary_keys_unique (add_video ttl fname an c (s\<lparr>uploads := fs\<rparr>))"
proof -
  have "length (filter (\<lambda>x. cat_id x = cat_id c) (categories s)) = 1"
    using assms(1,3) by (simp add: primary_keys_unique_def count_by_key)
  then show ?thesis
    using assms(1,2)
    by (simp add: catalog_invariant_def primary_keys_unique_def add_video_def
        references_one_category_def)
qed

lemma handle_keeps_invariant:
  assumes "primary_keys_unique s" "catalog_invariant s"
  shows "catalog_invariant (snd (handle pf r s))
       \<and> primary_keys_unique (snd (handle pf r s))"
  using handle_effect [OF refl, of pf r s]
proof (elim disjE exE conjE)
  assume "categories (snd (handle pf r s)) = categories s"
    "videos (snd (handle pf r s)) = videos s"
  with assms show ?thesis by (simp add: catalog_invariant_def primary_keys_unique_def)
next
  fix name
  assume "snd (handle pf r s) = add_category name s"
    "category_by_name (categories s) name = None"
  with assms show ?thesis by (simp add: add_category_keeps_invariant)
next
  fix ttl fname an c bytes
  assume "snd (handle pf r s)
      = add_video ttl fname an c (s\<lparr>uploads := fmupd fname bytes (uploads s)\<rparr>)"
    "c \<in> set (categories s)"
  with assms show ?thesis by (simp add: add_video_keeps_invariant)
qed

lemma reachable_invariant:
  "reachable pf s \<Longrightarrow> catalog_invariant s \<and> primary_keys_unique s"
proof (induction rule: reachable.induct)
  case reachable_initial
  show ?case by (simp add: catalog_invariant_def primary_keys_unique_def initial_def)
next
  case (reachable_step s r)
  then show ?case using handle_keeps_invariant [of s pf r] by simp
qed

text \<open>
  Claim C7. Take any state in which the category ids are distinct, as the primary key
  makes them, and in which every stored video references exactly one stored category
  and the category names are pairwise distinct. After any request whatever, all of
  this holds again.
\<close>

theorem every_request_keeps_catalog_invariant:
  assumes "primary_keys_unique s" and "catalog_invariant s"
  shows "catalog_invariant (snd (handle pf r s))
       \<and> primary_keys_unique (snd (handle pf r s))"
  using assms by (rule handle_keeps_invariant)

theorem every_request_keeps_catalog_invariant_witness:
  "primary_keys_unique demo_state \<and> catalog_invariant demo_state
   \<and> catalog_invariant
        (snd (handle demo_platform (Req_admin_add_category 20 [''name'' \<mapsto> ''News''])
           demo_state))"
proof -
  have h1: "primary_keys_unique demo_state"
    by (simp add: primary_keys_unique_def demo_state_def)
  have h2: "catalog_invariant demo_state"
    by (simp add: catalog_invariant_def references_one_category_def demo_state_def)
  show ?thesis
    using h1 h2 every_request_keeps_catalog_invariant [OF h1 h2, of demo_platform
        "Req_admin_add_category 20 [''name'' \<mapsto> ''News'']"]
    by simp
qed

section \<open>Listing the videos of a category\<close>

lemma handle_keeps_ids_increasing:
  assumes "ids_increasing s"
  shows "ids_increasing (snd (handle pf r s))"
  using handle_effect [OF refl, of pf r s]
proof (elim disjE exE conjE)
  assume "videos (snd (handle pf r s)) = videos s"
  with assms show ?thesis by (simp add: ids_increasing_def)
next
  fix name
  assume "snd (handle pf r s) = add_category name s"
  with assms show ?thesis by (simp add: ids_increasing_def add_category_def)
next
  fix ttl fname an c bytes
  assume "snd (handle pf r s)
      = add_video ttl fname an c (s\<lparr>uploads := fmupd fname bytes (uploads s)\<rparr>)"
  with assms show ?thesis
    by (auto simp: ids_increasing_def add_video_def sorted_wrt_append
        intro: next_id_greater)
qed

lemma reachable_ids_increasing: "reachable pf s \<Longrightarrow> ids_increasing s"
proof (induction rule: reachable.induct)
  case reachable_initial
  show ?case by (simp add: ids_increasing_def initial_def)
next
  case (reachable_step s r)
  then show ?case by (simp add: handle_keeps_ids_increasing)
qed

lemma reachable_run: "reachable pf s \<Longrightarrow> reachable pf (run pf rs s)"
  by (induction rs arbitrary: s) (auto intro: reachable_step)

lemmas handler_defs = admin_login_def check_auth_def admin_add_category_def login_required_def
  logged_in_def admin_add_category_view_def category_by_name_def add_category_def
  admin_add_video_def admin_add_video_view_def category_get_def file_save_def add_video_def
  resolve_filename_def resolve_loop.simps rsplit1_def path_exists_def renamed_def py_str.simps
  MAX_CONTENT_LENGTH_def Let_def

lemma demo_run:
  "run demo_platform (demo_requests ''foo.mp4'') initial =
     \<lparr>categories = [\<lparr>cat_id = 1, cat_name = ''Finance''\<rparr>],
      videos = [\<lparr>vid_id = 1, title = ''A'', video_filename = ''foo.mp4'',
                 analysis = Some [], category_id = 1\<rparr>,
                \<lparr>vid_id = 2, title = ''B'', video_filename = ''foo_1.mp4'',
                 analysis = Some [], category_id = 1\<rparr>,
                \<lparr>vid_id = 3, title = ''C'', video_filename = ''foo_2.mp4'',
                 analysis = Some [], category_id = 1\<rparr>],
      uploads = fmupd ''foo_2.mp4'' ''data''
                 (fmupd ''foo_1.mp4'' ''data'' (fmupd ''foo.mp4'' ''data'' fmempty)),
      session = [''logged_in'' \<mapsto> True]\<rparr>"
  by (simp add: demo_requests_def demo_form_def demo_file_def demo_platform_def initial_def
      handler_defs sanitiser_defs python_defs)

text \<open>
  Claim C5. In every state the server can reach, and for every id of a stored category,
  \<open>api_videos_by_category\<close> answers with the videos of that category in the reverse of
  the order in which they were added, and their ids strictly decrease along the answer.
  The video table is kept in insertion order, so videos added as A, B, C come back as
  C, B, A.
\<close>

theorem videos_by_category_newest_first:
  assumes "reachable pf s" and "\<exists>c\<in>set (categories s). cat_id c = cid"
  shows "fst (api_videos_by_category cid s) =
           Json_videos (map (\<lambda>v. (vid_id v, title v))
                          (rev (filter (\<lambda>v. category_id v = cid) (videos s))))
       \<and> sorted_wrt (\<lambda>a b. a > b)
           (map vid_id (rev (filter (\<lambda>v. category_id v = cid) (videos s))))"
proof -
  let ?vs = "filter (\<lambda>v. category_id v = cid) (videos s)"
  from category_get_present [OF assms(2)]
  obtain c where c: "category_get (categories s) cid = Inr (Some c)" by blast
  then have cid: "cat_id c = cid" by (simp add: category_get_found)
  have "sorted_wrt (\<lambda>x y. vid_id x < vid_id y) (videos s)"
    using reachable_ids_increasing [OF assms(1)] by (simp add: ids_increasing_def sorted_wrt_map)
  then have inc: "sorted_wrt (\<lambda>x y. vid_id x < vid_id y) ?vs" by (rule sorted_wrt_filter)
  then have "sorted_wrt (\<lambda>x y. vid_id x \<le> vid_id y) ?vs"
    by (rule sorted_wrt_mono_rel [rotated]) simp
  then have "sorted (map vid_id ?vs)" by (simp add: sorted_wrt_map)
  then have "sort_key vid_id ?vs = ?vs" by (rule sort_key_id_if_sorted)
  then have "fst (api_videos_by_category cid s) =
      Json_videos (map (\<lambda>v. (vid_id v, title v)) (rev ?vs))"
    using c cid by (simp add: api_videos_by_category_def)
  moreover have "sorted_wrt (\<lambda>a b. a > b) (map vid_id (rev ?vs))"
    using inc by (simp add: sorted_wrt_map sorted_wrt_rev)
  ultimately show ?thesis by simp
qed

theorem videos_by_category_newest_first_witness:
  "reachable demo_platform (run demo_platform (demo_requests ''foo.mp4'') initial)
   \<and> (\<exists>c\<in>set (categories (run demo_platform (demo_requests ''foo.mp4'') initial)).
         cat_id c = 1)
   \<and> fst (api_videos_by_category 1 (run demo_platform (demo_requests ''foo.mp4'') initial))
       = Json_videos [(3, ''C''), (2, ''B''), (1, ''A'')]"
proof -
  let ?s = "run demo_platform (demo_requests ''foo.mp4'') initial"
  have h1: "reachable demo_platform ?s"
    by (rule reachable_run) (rule reachable_initial)
  have h2: "\<exists>c\<in>set (categories ?s). cat_id c = 1" by (simp add: demo_run)
  show ?thesis
    using h1 h2 videos_by_category_newest_first [OF h1 h2]
    by (simp add: demo_run)
qed

section \<open>Uploading the same file name again\<close>











lemma stored_name_empty: "stored_name [] k = ''_'' @ py_str (Suc k)"
  by (simp add: stored_name_def claimed_name_def rsplit1_def renamed_def)






section \<open>The bot's answer to data from the mini application\<close>

text \<open>
  Claim C8. Take a message that carries data of the mini application. The handler
  succeeds and changes the world in one way only: it sends one message to the chat the
  data came from. The text of that message is the fixed label of the source followed
  by the payload, byte for byte, whatever the payload is; the button text that comes
  with the payload is not used. The storage of the web application is returned as it
  was, and the answer is the same whatever the storage holds. Unless the start filter
  accepts the message, this handler is what the dispatcher runs on it.
\<close>

theorem web_app_data_is_echoed_and_nothing_else_happens:
  assumes "web_app_data m = Some wad"
  shows "\<exists>w'. handle_web_app_data m w = Inr w'
           \<and> w' = w\<lparr>outbox := outbox w @
                     [\<lparr>to_chat = chat m, body = received_prefix @ data wad,
                       reply_markup = None\<rparr>]\<rparr>
           \<and> storage w' = storage w
           \<and> drop (length received_prefix) (body (last (outbox w'))) = data wad
           \<and> (\<forall>st. \<exists>w''. handle_web_app_data m (w\<lparr>storage := st\<rparr>) = Inr w''
                       \<and> outbox w'' = outbox w' \<and> storage w'' = st)
           \<and> (\<not> command_start m
                \<longrightarrow> on_message command_start web_app_url m w = Inr w')"
  using assms by (simp add: handle_web_app_data_def answer_def on_message_def)

theorem web_app_data_is_echoed_and_nothing_else_happens_witness:
  "web_app_data demo_message = Some \<lparr>data = ''ping'', button_text = ''Send''\<rparr>
   \<and> \<not> demo_command_start demo_message
   \<and> on_message demo_command_start ''https://example.com/'' demo_message
        \<lparr>storage = demo_state, outbox = []\<rparr>
      = Inr \<lparr>storage = demo_state,
             outbox = [\<lparr>to_chat = 42, body = received_prefix @ ''ping'',
                        reply_markup = None\<rparr>]\<rparr>"
proof -
  have h: "web_app_data demo_message = Some \<lparr>data = ''ping'', button_text = ''Send''\<rparr>"
    by (simp add: demo_message_def)
  have n: "\<not> demo_command_start demo_message"
    by (simp add: demo_command_start_def demo_message_def)
  have c: "chat demo_message = 42" by (simp add: demo_message_def)
  show ?thesis
    using h n web_app_data_is_echoed_and_nothing_else_happens [OF h,
        of "\<lparr>storage = demo_state, outbox = []\<rparr>" demo_command_start "''https://example.com/''"]
    by (auto simp: c)
qed

end
